theory Spec2Isabelle
  imports Complex_Main
begin

section \<open>The loader of data_loader.py as state-passing functions\<close>

text \<open>
  The theory embeds \<^verbatim>\<open>process_and_load_data\<close> of \<^verbatim>\<open>src/data_loader.py\<close>.
  A match document is a value of the record types below. A key that the source reads
  by subscription (\<^verbatim>\<open>d['batter']\<close>) is a field; a key that it reads with
  \<^verbatim>\<open>.get\<close> or tests with \<^verbatim>\<open>in\<close> is an optional field; a JSON object whose
  keys are open (\<^verbatim>\<open>extras\<close>, \<^verbatim>\<open>by\<close>, \<^verbatim>\<open>people\<close>) is an association list in
  document order (its keys are distinct, as in the dict that \<^verbatim>\<open>json.load\<close>
  builds); a JSON array is a list. Values that are only carried through
  (\<^verbatim>\<open>season\<close>, \<^verbatim>\<open>officials\<close>, ...) are of the opaque type \<open>json\<close>.
  Every exception that can be raised on such a document is a value of \<open>py_error\<close>,
  and a function that can raise returns \<open>py_error + 'a\<close>.

  The \<^verbatim>\<open>Float\<close> column \<^verbatim>\<open>over\<close> is modelled by the exact rational number; the
  rounding of IEEE doubles is outside the model.
\<close>

datatype py_error =
    IndexError
  | StopIteration
  | ValueError
  | JSONDecodeError
  | SQLAlchemyError

typedecl json

type_synonym date = "int \<times> int \<times> int"

subsection \<open>The input documents\<close>

record fielder_data =
  f_name :: string

record wicket_data =
  w_player_out :: "string option"
  w_kind :: "string option"
  w_fielders :: "fielder_data list option"

record runs_data =
  r_batter :: int
  r_extras :: int
  r_total :: int

record delivery_data =
  d_batter :: string
  d_bowler :: string
  d_non_striker :: string
  d_runs :: runs_data
  d_extras :: "(string \<times> int) list option"
  d_wickets :: "wicket_data list option"

record over_data =
  o_over :: int
  o_deliveries :: "delivery_data list"

record inning_data =
  i_team :: string
  i_overs :: "over_data list"

record registry_data =
  reg_people :: "(string \<times> string) list option"

record outcome_data =
  oc_winner :: "string option"
  oc_by :: "(string \<times> int) list option"

record toss_data =
  t_winner :: string
  t_decision :: string

record info_data =
  info_registry :: "registry_data option"
  info_teams :: "string list"
  info_outcome :: "outcome_data option"
  info_player_of_match :: "string list option"
  info_season :: "json option"
  info_venue :: "json option"
  info_city :: "json option"
  info_dates :: "string list"
  info_match_type :: "json option"
  info_balls_per_over :: "json option"
  info_toss :: toss_data
  info_officials :: "json option"

record document =
  doc_info :: info_data
  doc_innings :: "inning_data list"

subsection \<open>The ORM rows\<close>

record team =
  team_id :: "int option"
  team_name :: string

record player =
  player_id :: string
  player_name :: string

record delivery =
  over :: rat
  batter_id :: "string option"
  bowler_id :: "string option"
  non_striker_id :: "string option"
  runs_batter :: int
  runs_extras :: int
  runs_total :: int
  extras_type :: "string option"
  is_wicket :: int
  player_out_id :: "string option"
  wicket_kind :: "string option"
  wicket_fielders :: "string list option"

record inning =
  inning_number :: nat
  batting_team_id :: "int option"
  deliveries :: "delivery list"

record match =
  match_id :: string
  season :: "json option"
  venue :: "json option"
  city :: "json option"
  match_date :: date
  match_type :: "json option"
  balls_per_over :: "json option"
  team1_id :: "int option"
  team2_id :: "int option"
  toss_winner_id :: "int option"
  toss_decision :: string
  winner_id :: "int option"
  outcome_result :: "string option"
  outcome_margin :: "int option"
  player_of_match_id :: "string option"
  officials :: "json option"
  innings :: "inning list"

subsection \<open>Python primitives\<close>

text \<open>\<^verbatim>\<open>xs[0]\<close>: the first element, or \<^verbatim>\<open>IndexError\<close> on the empty list.\<close>

fun item0 :: "'a list \<Rightarrow> py_error + 'a" where
  "item0 [] = Inl IndexError"
| "item0 (x # xs) = Inr x"

text \<open>\<^verbatim>\<open>xs[1]\<close>.\<close>

fun item1 :: "'a list \<Rightarrow> py_error + 'a" where
  "item1 (x # y # xs) = Inr y"
| "item1 xs = Inl IndexError"

text \<open>
  Equality of two dicts with string keys: the same keys, bound to the same values,
  in any order.
\<close>

definition dict_eq :: "(string \<times> int) list \<Rightarrow> (string \<times> int) list \<Rightarrow> bool" where
  "dict_eq xs ys \<longleftrightarrow>
     list_all (\<lambda>k. map_of xs k = map_of ys k) (map fst xs @ map fst ys)"

text \<open>
  \<^verbatim>\<open>==\<close> on two delivery dicts: key by key; an absent key equals only an absent key.
\<close>

definition delivery_eq :: "delivery_data \<Rightarrow> delivery_data \<Rightarrow> bool" where
  "delivery_eq a b \<longleftrightarrow>
     d_batter a = d_batter b \<and> d_bowler a = d_bowler b \<and>
     d_non_striker a = d_non_striker b \<and> d_runs a = d_runs b \<and>
     (case (d_extras a, d_extras b) of
        (None, None) \<Rightarrow> True
      | (Some x, Some y) \<Rightarrow> dict_eq x y
      | _ \<Rightarrow> False) \<and>
     d_wickets a = d_wickets b"

text \<open>
  \<^verbatim>\<open>xs.index(d)\<close>: the position of the first element equal to \<open>d\<close>;
  \<^verbatim>\<open>ValueError\<close> when there is none.
\<close>

fun index :: "delivery_data list \<Rightarrow> delivery_data \<Rightarrow> py_error + nat" where
  "index [] d = Inl ValueError"
| "index (x # xs) d =
     (if delivery_eq x d then Inr 0
      else case index xs d of Inl e \<Rightarrow> Inl e | Inr i \<Rightarrow> Inr (Suc i))"

text \<open>\<^verbatim>\<open>s.endswith(suffix)\<close>.\<close>

definition endswith :: "string \<Rightarrow> string \<Rightarrow> bool" where
  "endswith s suffix \<longleftrightarrow>
     length suffix \<le> length s \<and> drop (length s - length suffix) s = suffix"

text \<open>
  \<^verbatim>\<open>os.path.splitext(p)[0]\<close> for a name without a path separator: the name up to its
  last dot, unless only dots precede that dot.
\<close>

definition splitext :: "string \<Rightarrow> string" where
  "splitext p =
     (let after = dropWhile (\<lambda>c. c \<noteq> CHR ''.'') (rev p) in
      if after = [] then p
      else let root = rev (tl after) in
        if list_all (\<lambda>c. c = CHR ''.'') root then p else root)"

subsection \<open>Looking an entity up in a cache\<close>

text \<open>
  \<^verbatim>\<open>next((p.id for p in player_cache.values() if p.name == name), None)\<close>, where
  \<open>name\<close> may be \<^verbatim>\<open>None\<close>. The names of the players are strings (keys of the
  registry), so \<^verbatim>\<open>None\<close> matches no player.
\<close>

definition find_player_id :: "player list \<Rightarrow> string option \<Rightarrow> string option" where
  "find_player_id players name =
     map_option player_id (find (\<lambda>p. Some (player_name p) = name) players)"

text \<open>
  \<^verbatim>\<open>next((t.id for t in team_cache.values() if t.name == name), None)\<close>.
\<close>

definition find_team_id :: "team list \<Rightarrow> string option \<Rightarrow> int option" where
  "find_team_id teams name =
     (case find (\<lambda>t. Some (team_name t) = name) teams of
        None \<Rightarrow> None
      | Some t \<Rightarrow> team_id t)"

text \<open>
  \<^verbatim>\<open>next(t.id for t in team_cache.values() if t.name == <key>)\<close>, with no default:
  \<^verbatim>\<open>StopIteration\<close> when no team matches. The generator evaluates \<open><key>\<close> once
  for each team it visits, so an error of the key expression is raised only when the
  cache has a team.
\<close>

definition next_team_id :: "team list \<Rightarrow> py_error + string \<Rightarrow> py_error + int option" where
  "next_team_id teams key =
     (if teams = [] then Inl StopIteration
      else case key of
        Inl e \<Rightarrow> Inl e
      | Inr name \<Rightarrow>
          (case find (\<lambda>t. team_name t = name) teams of
             None \<Rightarrow> Inl StopIteration
           | Some t \<Rightarrow> Inr (team_id t)))"

subsection \<open>One delivery (lines 153 to 170)\<close>

definition make_delivery :: "player list \<Rightarrow> over_data \<Rightarrow> delivery_data \<Rightarrow> py_error + delivery" where
  "make_delivery players over_data delivery_data =
     (case item0 (case d_wickets delivery_data of
                    None \<Rightarrow> [\<lparr>w_player_out = None, w_kind = None, w_fielders = None\<rparr>]
                  | Some ws \<Rightarrow> ws) of
        Inl e \<Rightarrow> Inl e
      | Inr wicket_info \<Rightarrow>
          (case index (o_deliveries over_data) delivery_data of
             Inl e \<Rightarrow> Inl e
           | Inr i \<Rightarrow>
               (case (case d_extras delivery_data of
                        None \<Rightarrow> Inr None
                      | Some ex \<Rightarrow>
                          (case item0 (map fst ex) of
                             Inl e \<Rightarrow> Inl e
                           | Inr k \<Rightarrow> Inr (Some k))) of
                  Inl e \<Rightarrow> Inl e
                | Inr et \<Rightarrow>
                    Inr \<lparr>over = of_int (o_over over_data) + of_nat (i + 1) / 10,
                         batter_id = find_player_id players (Some (d_batter delivery_data)),
                         bowler_id = find_player_id players (Some (d_bowler delivery_data)),
                         non_striker_id =
                           find_player_id players (Some (d_non_striker delivery_data)),
                         runs_batter = r_batter (d_runs delivery_data),
                         runs_extras = r_extras (d_runs delivery_data),
                         runs_total = r_total (d_runs delivery_data),
                         extras_type = et,
                         is_wicket =
                           (if wicket_info = \<lparr>w_player_out = None, w_kind = None,
                                               w_fielders = None\<rparr>
                            then 0 else 1),
                         player_out_id = find_player_id players (w_player_out wicket_info),
                         wicket_kind = w_kind wicket_info,
                         wicket_fielders =
                           (case w_fielders wicket_info of
                              None \<Rightarrow> None
                            | Some [] \<Rightarrow> None
                            | Some fs \<Rightarrow> Some (map f_name fs))\<rparr>)))"

subsection \<open>The loops over deliveries, overs and innings (lines 147 to 172)\<close>

text \<open>
  Each loop appends its rows in document order and stops at the first exception.
  \<open>deliveries_loop\<close> is the inner \<^verbatim>\<open>for delivery_data in over_data['deliveries']\<close>;
  it walks the deliveries of \<open>over_data\<close> that are still to come.
\<close>

fun deliveries_loop ::
  "player list \<Rightarrow> over_data \<Rightarrow> delivery_data list \<Rightarrow> py_error + delivery list" where
  "deliveries_loop players over_data [] = Inr []"
| "deliveries_loop players over_data (d # ds) =
     (case make_delivery players over_data d of
        Inl e \<Rightarrow> Inl e
      | Inr row \<Rightarrow>
          (case deliveries_loop players over_data ds of
             Inl e \<Rightarrow> Inl e
           | Inr rows \<Rightarrow> Inr (row # rows)))"

fun overs_loop :: "player list \<Rightarrow> over_data list \<Rightarrow> py_error + delivery list" where
  "overs_loop players [] = Inr []"
| "overs_loop players (over_data # rest) =
     (case deliveries_loop players over_data (o_deliveries over_data) of
        Inl e \<Rightarrow> Inl e
      | Inr rows \<Rightarrow>
          (case overs_loop players rest of
             Inl e \<Rightarrow> Inl e
           | Inr rows' \<Rightarrow> Inr (rows @ rows')))"

definition make_inning ::
  "team list \<Rightarrow> player list \<Rightarrow> nat \<Rightarrow> inning_data \<Rightarrow> py_error + inning" where
  "make_inning teams players i inning_data =
     (case next_team_id teams (Inr (i_team inning_data)) of
        Inl e \<Rightarrow> Inl e
      | Inr tid \<Rightarrow>
          (case overs_loop players (i_overs inning_data) of
             Inl e \<Rightarrow> Inl e
           | Inr rows \<Rightarrow>
               Inr \<lparr>inning_number = i + 1, batting_team_id = tid, deliveries = rows\<rparr>))"

text \<open>\<^verbatim>\<open>for i, inning_data in enumerate(data['innings'])\<close>, from index \<open>i\<close> on.\<close>

fun innings_loop ::
  "team list \<Rightarrow> player list \<Rightarrow> nat \<Rightarrow> inning_data list \<Rightarrow> py_error + inning list" where
  "innings_loop teams players i [] = Inr []"
| "innings_loop teams players i (inning_data # rest) =
     (case make_inning teams players i inning_data of
        Inl e \<Rightarrow> Inl e
      | Inr new_inning \<Rightarrow>
          (case innings_loop teams players (Suc i) rest of
             Inl e \<Rightarrow> Inl e
           | Inr others \<Rightarrow> Inr (new_inning # others)))"

subsection \<open>The match row (lines 122 to 144)\<close>

text \<open>
  \<open>to_datetime\<close> stands for \<^verbatim>\<open>pd.to_datetime(s).date()\<close>, which is not code of the
  repository: it is a parameter that returns a date or raises.
  The arguments of \<^verbatim>\<open>Match(...)\<close> are evaluated in the order in which they are
  written, so the first one that raises decides the exception.
\<close>

definition make_match ::
  "(string \<Rightarrow> py_error + date) \<Rightarrow> team list \<Rightarrow> player list \<Rightarrow> string \<Rightarrow> info_data
     \<Rightarrow> py_error + match" where
  "make_match to_datetime teams players file_name info =
     (let outcome = (case info_outcome info of
                       None \<Rightarrow> \<lparr>oc_winner = None, oc_by = None\<rparr>
                     | Some oc \<Rightarrow> oc)
      in
      (case (case info_player_of_match info of
               None \<Rightarrow> Inr None
             | Some names \<Rightarrow>
                 (case item0 names of Inl e \<Rightarrow> Inl e | Inr n \<Rightarrow> Inr (Some n))) of
         Inl e \<Rightarrow> Inl e
       | Inr player_of_match_name \<Rightarrow>
      (let player_id = find_player_id players player_of_match_name;
           winner_team_id = find_team_id teams (oc_winner outcome)
       in
      (case item0 (info_dates info) of
         Inl e \<Rightarrow> Inl e
       | Inr date_string \<Rightarrow>
      (case to_datetime date_string of
         Inl e \<Rightarrow> Inl e
       | Inr the_date \<Rightarrow>
      (case next_team_id teams (item0 (info_teams info)) of
         Inl e \<Rightarrow> Inl e
       | Inr t1 \<Rightarrow>
      (case next_team_id teams (item1 (info_teams info)) of
         Inl e \<Rightarrow> Inl e
       | Inr t2 \<Rightarrow>
      (case next_team_id teams (Inr (t_winner (info_toss info))) of
         Inl e \<Rightarrow> Inl e
       | Inr tw \<Rightarrow>
          Inr \<lparr>match_id = splitext file_name,
               season = info_season info, venue = info_venue info, city = info_city info,
               match_date = the_date,
               match_type = info_match_type info,
               balls_per_over = info_balls_per_over info,
               team1_id = t1, team2_id = t2, toss_winner_id = tw,
               toss_decision = t_decision (info_toss info),
               winner_id = winner_team_id,
               outcome_result =
                 (case oc_by outcome of
                    None \<Rightarrow> None
                  | Some [] \<Rightarrow> None
                  | Some (kv # _) \<Rightarrow> Some (fst kv)),
               outcome_margin =
                 (case oc_by outcome of
                    None \<Rightarrow> None
                  | Some [] \<Rightarrow> None
                  | Some (kv # _) \<Rightarrow> Some (snd kv)),
               player_of_match_id = player_id,
               officials = info_officials info,
               innings = []\<rparr>))))))))"

subsection \<open>The caches, the session and the store\<close>

text \<open>
  \<open>player_cache\<close> and \<open>team_cache\<close> are the two dicts of the source, in insertion
  order. The store holds the committed rows; \<open>session_new\<close> holds the match objects
  added to the session and not yet committed. The SQLAlchemy session and SQLite are
  not code of the repository; they are modelled as follows. A commit writes every
  object of the session that is not yet in the store: a team without an id gets the
  next row id of the table, in the order in which the teams were added. Whether a
  commit succeeds is decided by the environment: \<open>commit_ok env n\<close> tells it for
  the commit after \<open>n\<close> successful ones. The ids of innings and deliveries, which
  the store assigns and the source never reads, are left out.
\<close>

datatype message =
    Processing string
  | Successfully_committed
  | Final_commit_error py_error

record env =
  to_datetime :: "string \<Rightarrow> py_error + date"
  commit_ok :: "nat \<Rightarrow> bool"

record state =
  player_cache :: "(string \<times> player) list"
  team_cache :: "(string \<times> team) list"
  session_new :: "match list"
  db_players :: "player list"
  db_teams :: "team list"
  db_matches :: "match list"
  n_commits :: nat
  stdout :: "message list"

definition init_state :: state where
  "init_state =
     \<lparr>player_cache = [], team_cache = [], session_new = [],
      db_players = [], db_teams = [], db_matches = [], n_commits = 0, stdout = []\<rparr>"

text \<open>Lines 107 to 109: \<^verbatim>\<open>for name, pid in ...items(): if pid not in player_cache\<close>.\<close>

fun add_people :: "(string \<times> string) list \<Rightarrow> (string \<times> player) list \<Rightarrow> (string \<times> player) list" where
  "add_people [] pc = pc"
| "add_people ((name, pid) # rest) pc =
     add_people rest
       (if map_of pc pid = None
        then pc @ [(pid, \<lparr>player_id = pid, player_name = name\<rparr>)]
        else pc)"

text \<open>Lines 111 to 113: \<^verbatim>\<open>for team_name in info['teams']: if team_name not in team_cache\<close>.\<close>

fun add_teams :: "string list \<Rightarrow> (string \<times> team) list \<Rightarrow> (string \<times> team) list" where
  "add_teams [] tc = tc"
| "add_teams (name # rest) tc =
     add_teams rest
       (if map_of tc name = None
        then tc @ [(name, \<lparr>team_id = None, team_name = name\<rparr>)]
        else tc)"

text \<open>The row id SQLite gives to the next row of a table with these ids.\<close>

definition next_rowid :: "team list \<Rightarrow> int" where
  "next_rowid rows = fold max (map (\<lambda>t. case team_id t of None \<Rightarrow> 0 | Some i \<Rightarrow> i) rows) 0 + 1"

text \<open>
  The flush of the teams: the cache with the new ids (the objects of the cache are
  the objects of the session), and the rows inserted.
\<close>

fun flush_teams :: "int \<Rightarrow> (string \<times> team) list \<Rightarrow> (string \<times> team) list \<times> team list" where
  "flush_teams n [] = ([], [])"
| "flush_teams n ((k, t) # rest) =
     (case team_id t of
        None \<Rightarrow>
          (let t' = t\<lparr>team_id := Some n\<rparr>; r = flush_teams (n + 1) rest
           in ((k, t') # fst r, t' # snd r))
      | Some _ \<Rightarrow>
          (let r = flush_teams n rest in ((k, t) # fst r, snd r)))"

definition session_commit :: "env \<Rightarrow> state \<Rightarrow> py_error + state" where
  "session_commit env st =
     (if \<not> commit_ok env (n_commits st) then Inl SQLAlchemyError
      else
        let r = flush_teams (next_rowid (db_teams st)) (team_cache st) in
        Inr (st\<lparr>team_cache := fst r,
                db_teams := db_teams st @ snd r,
                db_players := db_players st @
                  filter (\<lambda>p. player_id p \<notin> set (map player_id (db_players st)))
                    (map snd (player_cache st)),
                db_matches := db_matches st @ session_new st,
                session_new := [],
                n_commits := n_commits st + 1\<rparr>))"

definition session_rollback :: "state \<Rightarrow> state" where
  "session_rollback st = st\<lparr>session_new := []\<rparr>"

subsection \<open>One file, and the run\<close>

text \<open>
  A file of the data directory is its name and what \<^verbatim>\<open>json.load\<close> makes of it:
  \<open>None\<close> when the file is not valid JSON (\<^verbatim>\<open>json.load\<close> raises), the document
  otherwise.
\<close>

definition process_file :: "env \<Rightarrow> state \<Rightarrow> string \<times> document option \<Rightarrow> py_error + state" where
  "process_file env st file =
     (let file_name = fst file;
          st1 = st\<lparr>stdout := stdout st @ [Processing file_name]\<rparr>
      in
      (case snd file of
         None \<Rightarrow> Inl JSONDecodeError
       | Some data \<Rightarrow>
      (let info = doc_info data;
           st2 = st1\<lparr>player_cache :=
                   (case info_registry info of
                      None \<Rightarrow> player_cache st1
                    | Some registry \<Rightarrow>
                        (case reg_people registry of
                           None \<Rightarrow> player_cache st1
                         | Some people \<Rightarrow> add_people people (player_cache st1)))\<rparr>;
           st3 = st2\<lparr>team_cache := add_teams (info_teams info) (team_cache st2)\<rparr>
       in
      (case session_commit env st3 of
         Inl e \<Rightarrow> Inl e
       | Inr st4 \<Rightarrow>
      (let teams = map snd (team_cache st4);
           players = map snd (player_cache st4)
       in
      (case make_match (to_datetime env) teams players file_name info of
         Inl e \<Rightarrow> Inl e
       | Inr new_match \<Rightarrow>
      (case innings_loop teams players 0 (doc_innings data) of
         Inl e \<Rightarrow> Inl e
       | Inr inns \<Rightarrow>
          Inr (st4\<lparr>session_new :=
                      session_new st4 @ [new_match\<lparr>innings := inns\<rparr>]\<rparr>))))))))"

fun process_files :: "env \<Rightarrow> state \<Rightarrow> (string \<times> document option) list \<Rightarrow> py_error + state" where
  "process_files env st [] = Inr st"
| "process_files env st (file # rest) =
     (case process_file env st file of
        Inl e \<Rightarrow> Inl e
      | Inr st' \<Rightarrow> process_files env st' rest)"

text \<open>
  \<^verbatim>\<open>process_and_load_data\<close>, run on the empty store that \<^verbatim>\<open>create_database\<close>
  leaves. \<open>listing\<close> is the data directory. \<open>Inl e\<close>: the exception \<open>e\<close> reaches
  the caller. \<open>Inr st\<close>: the function returns, leaving the state \<open>st\<close>.
\<close>

definition process_and_load_data ::
  "env \<Rightarrow> (string \<times> document option) list \<Rightarrow> py_error + state" where
  "process_and_load_data env listing =
     (let json_files = filter (\<lambda>f. endswith (fst f) ''.json'') listing in
      case process_files env init_state json_files of
        Inl e \<Rightarrow> Inl e
      | Inr st \<Rightarrow>
          (case session_commit env st of
             Inr st' \<Rightarrow> Inr (st'\<lparr>stdout := stdout st' @ [Successfully_committed]\<rparr>)
           | Inl e \<Rightarrow>
               Inr (session_rollback (st\<lparr>stdout := stdout st @ [Final_commit_error e]\<rparr>))))"

subsection \<open>Predicates and example documents used in the statements\<close>


text \<open>The dict \<^verbatim>\<open>{}\<close> that line 153 takes when a delivery has no wickets.\<close>

definition no_wicket :: wicket_data where
  "no_wicket = \<lparr>w_player_out = None, w_kind = None, w_fielders = None\<rparr>"

text \<open>A ball to batter \<open>A\<close> from bowler \<open>B\<close> that scores \<open>n\<close> runs off the bat.\<close>

definition ball :: "int \<Rightarrow> delivery_data" where
  "ball n =
     \<lparr>d_batter = ''A'', d_bowler = ''B'', d_non_striker = ''C'',
      d_runs = \<lparr>r_batter = n, r_extras = 0, r_total = n\<rparr>,
      d_extras = None, d_wickets = None\<rparr>"

text \<open>An over of two dot balls to the same batter.\<close>

definition two_dots :: over_data where
  "two_dots = \<lparr>o_over = 0, o_deliveries = [ball 0, ball 0]\<rparr>"

text \<open>The over of the scenario of the specification: a four, then a dot ball.\<close>

definition four_dot :: over_data where
  "four_dot = \<lparr>o_over = 1, o_deliveries = [ball 4, ball 0]\<rparr>"

definition bowled :: delivery_data where
  "bowled = (ball 0)\<lparr>d_wickets :=
     Some [\<lparr>w_player_out = Some ''A'', w_kind = Some ''bowled'', w_fielders = None\<rparr>]\<rparr>"

definition out_without_kind :: delivery_data where
  "out_without_kind = (ball 0)\<lparr>d_wickets :=
     Some [\<lparr>w_player_out = Some ''A'', w_kind = None, w_fielders = None\<rparr>]\<rparr>"

definition wide :: delivery_data where
  "wide = (ball 0)\<lparr>d_runs := \<lparr>r_batter = 0, r_extras = 1, r_total = 1\<rparr>,
                   d_extras := Some [(''wides'', 1)]\<rparr>"

definition empty_extras :: delivery_data where
  "empty_extras = (ball 0)\<lparr>d_extras := Some []\<rparr>"

definition empty_wickets :: delivery_data where
  "empty_wickets = (ball 0)\<lparr>d_wickets := Some []\<rparr>"


definition next_over :: over_data where
  "next_over = \<lparr>o_over = 1, o_deliveries = [ball 0]\<rparr>"

definition mumbai :: team where
  "mumbai = \<lparr>team_id = Some 1, team_name = ''Mumbai Indians''\<rparr>"

definition chennai :: team where
  "chennai = \<lparr>team_id = Some 2, team_name = ''Chennai Super Kings''\<rparr>"

text \<open>An innings of Mumbai Indians with the given overs.\<close>

definition innings_of :: "over_data list \<Rightarrow> inning_data" where
  "innings_of overs = \<lparr>i_team = ''Mumbai Indians'', i_overs = overs\<rparr>"


text \<open>
  An environment in which every date parses and every commit succeeds, and one in
  which only the first commit succeeds.
\<close>

definition env0 :: env where
  "env0 = \<lparr>to_datetime = (\<lambda>s. Inr (2024, 1, 1)), commit_ok = (\<lambda>n. True)\<rparr>"

definition env_one_commit :: env where
  "env_one_commit = \<lparr>to_datetime = (\<lambda>s. Inr (2024, 1, 1)), commit_ok = (\<lambda>n. n = 0)\<rparr>"

text \<open>
  The document of the scenario of the specification: Mumbai Indians against Chennai
  Super Kings, Mumbai Indians win the toss and bat one innings of the given overs. It
  has no registry, no outcome and no player of the match.
\<close>

definition doc_of :: "over_data list \<Rightarrow> document" where
  "doc_of overs =
     \<lparr>doc_info =
        \<lparr>info_registry = None,
         info_teams = [''Mumbai Indians'', ''Chennai Super Kings''],
         info_outcome = None,
         info_player_of_match = None,
         info_season = None, info_venue = None, info_city = None,
         info_dates = [''2024-01-01''],
         info_match_type = None, info_balls_per_over = None,
         info_toss = \<lparr>t_winner = ''Mumbai Indians'', t_decision = ''bat''\<rparr>,
         info_officials = None\<rparr>,
      doc_innings = [innings_of overs]\<rparr>"

text \<open>The document \<open>doc_of overs\<close> with a registry of the three players of \<open>ball\<close>.\<close>

definition doc_with_registry :: "over_data list \<Rightarrow> document" where
  "doc_with_registry overs =
     (doc_of overs)\<lparr>doc_info := (doc_info (doc_of overs))
        \<lparr>info_registry :=
           Some \<lparr>reg_people = Some [(''A'', ''p1''), (''B'', ''p2''), (''C'', ''p3'')]\<rparr>,
         info_outcome :=
           Some \<lparr>oc_winner = Some ''Mumbai Indians'', oc_by = Some [(''runs'', 5)]\<rparr>,
         info_player_of_match := Some [''A'']\<rparr>\<rparr>"







text \<open>
  The invariant that ties the teams table to the team cache: the keys of the cache
  are distinct, every team of the cache is stored under its name, the rows of the
  table have distinct names, and these are the names of the cached teams that have an
  id.
\<close>

definition team_store_inv :: "state \<Rightarrow> bool" where
  "team_store_inv st \<longleftrightarrow>
     distinct (map fst (team_cache st)) \<and>
     list_all (\<lambda>e. team_name (snd e) = fst e) (team_cache st) \<and>
     distinct (map team_name (db_teams st)) \<and>
     set (map team_name (db_teams st)) =
       set (map fst (filter (\<lambda>e. team_id (snd e) \<noteq> None) (team_cache st)))"

section \<open>Properties\<close>

subsection \<open>Python primitives\<close>


lemma item0_Inl: "item0 xs = Inl e \<longleftrightarrow> xs = [] \<and> e = IndexError"
  by (cases xs) auto

lemma dict_eq_refl: "dict_eq x x"
  by (simp add: dict_eq_def list_all_iff)

lemma delivery_eq_refl: "delivery_eq d d"
  by (simp add: delivery_eq_def dict_eq_refl split: option.splits)

lemma index_mem: "d \<in> set ds \<Longrightarrow> \<exists>i. index ds d = Inr i"
  by (induction ds) (auto simp: delivery_eq_refl)



subsection \<open>One delivery\<close>

text \<open>What a delivery row holds when \<open>make_delivery\<close> returns one.\<close>

lemma make_delivery_Inr:
  assumes "make_delivery players od d = Inr row"
  obtains w i et where
    "item0 (case d_wickets d of
              None \<Rightarrow> [\<lparr>w_player_out = None, w_kind = None, w_fielders = None\<rparr>]
            | Some ws \<Rightarrow> ws) = Inr w"
    "index (o_deliveries od) d = Inr i"
    "(case d_extras d of None \<Rightarrow> Inr None
      | Some ex \<Rightarrow> (case item0 (map fst ex) of Inl e \<Rightarrow> Inl e | Inr k \<Rightarrow> Inr (Some k))) = Inr et"
    "over row = of_int (o_over od) + of_nat (i + 1) / 10"
    "batter_id row = find_player_id players (Some (d_batter d))"
    "bowler_id row = find_player_id players (Some (d_bowler d))"
    "non_striker_id row = find_player_id players (Some (d_non_striker d))"
    "runs_batter row = r_batter (d_runs d)"
    "runs_extras row = r_extras (d_runs d)"
    "runs_total row = r_total (d_runs d)"
    "extras_type row = et"
    "is_wicket row =
       (if w = \<lparr>w_player_out = None, w_kind = None, w_fielders = None\<rparr> then 0 else 1)"
    "player_out_id row = find_player_id players (w_player_out w)"
    "wicket_kind row = w_kind w"
    "wicket_fielders row = (case w_fielders w of None \<Rightarrow> None | Some [] \<Rightarrow> None
                            | Some fs \<Rightarrow> Some (map f_name fs))"
proof -
  from assms obtain w i et where
    a: "item0 (case d_wickets d of
              None \<Rightarrow> [\<lparr>w_player_out = None, w_kind = None, w_fielders = None\<rparr>]
            | Some ws \<Rightarrow> ws) = Inr w"
    and b: "index (o_deliveries od) d = Inr i"
    and c: "(case d_extras d of None \<Rightarrow> Inr None
      | Some ex \<Rightarrow> (case item0 (map fst ex) of Inl e \<Rightarrow> Inl e | Inr k \<Rightarrow> Inr (Some k))) = Inr et"
    and row: "row =
       \<lparr>over = of_int (o_over od) + of_nat (i + 1) / 10,
        batter_id = find_player_id players (Some (d_batter d)),
        bowler_id = find_player_id players (Some (d_bowler d)),
        non_striker_id = find_player_id players (Some (d_non_striker d)),
        runs_batter = r_batter (d_runs d),
        runs_extras = r_extras (d_runs d),
        runs_total = r_total (d_runs d),
        extras_type = et,
        is_wicket = (if w = \<lparr>w_player_out = None, w_kind = None, w_fielders = None\<rparr>
                     then 0 else 1),
        player_out_id = find_player_id players (w_player_out w),
        wicket_kind = w_kind w,
        wicket_fielders = (case w_fielders w of None \<Rightarrow> None | Some [] \<Rightarrow> None
                            | Some fs \<Rightarrow> Some (map f_name fs))\<rparr>"
    unfolding make_delivery_def by (auto split: sum.splits)
  show thesis
    by (rule that [OF a b c]) (simp_all add: row)
qed

lemma make_delivery_wickets_empty:
  "d_wickets d = Some [] \<Longrightarrow> make_delivery players od d = Inl IndexError"
  by (simp add: make_delivery_def)

lemma make_delivery_total_iff:
  assumes "d \<in> set (o_deliveries od)"
  shows "(\<exists>row. make_delivery players od d = Inr row) \<longleftrightarrow>
           d_wickets d \<noteq> Some [] \<and> d_extras d \<noteq> Some []"
proof -
  from assms obtain i where "index (o_deliveries od) d = Inr i"
    using index_mem by blast
  then show ?thesis
    by (cases "d_wickets d"; cases "d_extras d")
       (auto simp: make_delivery_def item0_Inl split: sum.splits list.splits)
qed

lemmas example_defs =
  ball_def two_dots_def four_dot_def bowled_def out_without_kind_def wide_def
  empty_extras_def empty_wickets_def no_wicket_def

lemmas delivery_defs = make_delivery_def delivery_eq_def dict_eq_def find_player_id_def

text \<open>
  C1. The stored over value is the declared over index plus a tenth of one plus
  \<^verbatim>\<open>deliveries.index(delivery_data)\<close>, the position of the first delivery of the
  over that equals this one. In an over of two equal dot balls both rows get the over
  value \<open>0.1\<close>: the second one does not get its own position, \<open>0.2\<close>.
\<close>

theorem repeated_delivery_gets_first_position:
  "map_sum id (map over) (overs_loop [] [two_dots]) = Inr [1 / 10, 1 / 10]"
  by (simp add: example_defs delivery_defs)




text \<open>
  C9 as stated fails: when the extras structure is present but empty there is no
  first key; \<^verbatim>\<open>list(...keys())[0]\<close> raises \<^verbatim>\<open>IndexError\<close> and no row is built.
\<close>

theorem empty_extras_counterexample:
  "make_delivery [] \<lparr>o_over = 0, o_deliveries = [empty_extras]\<rparr> empty_extras
   = Inl IndexError"
  by (simp add: example_defs delivery_defs)

text \<open>
  C9, amended. For every delivery row built, \<open>extras_type\<close> is the first key of the
  delivery's extras structure when that structure is present and has a key, and null
  when no extras structure is present; \<open>runs_batter\<close>, \<open>runs_extras\<close> and
  \<open>runs_total\<close> are the three numbers of the delivery's run breakdown.
\<close>

theorem extras_type_first_key:
  assumes "make_delivery players od d = Inr row"
  shows "(d_extras d = None \<longrightarrow> extras_type row = None)
         \<and> (\<forall>k v rest. d_extras d = Some ((k, v) # rest) \<longrightarrow> extras_type row = Some k)
         \<and> runs_batter row = r_batter (d_runs d)
         \<and> runs_extras row = r_extras (d_runs d)
         \<and> runs_total row = r_total (d_runs d)"
proof -
  from assms obtain et where
    et: "(case d_extras d of None \<Rightarrow> Inr None
      | Some ex \<Rightarrow> (case item0 (map fst ex) of Inl e \<Rightarrow> Inl e | Inr k \<Rightarrow> Inr (Some k))) = Inr et"
    and "runs_batter row = r_batter (d_runs d)"
        "runs_extras row = r_extras (d_runs d)"
        "runs_total row = r_total (d_runs d)"
        "extras_type row = et"
    by (rule make_delivery_Inr)
  then show ?thesis by (auto split: option.splits)
qed

theorem extras_type_first_key_witness:
  "(\<exists>row. make_delivery [] \<lparr>o_over = 0, o_deliveries = [wide]\<rparr> wide = Inr row
          \<and> extras_type row = Some ''wides''
          \<and> (runs_batter row, runs_extras row, runs_total row) = (0, 1, 1))
   \<and> (\<exists>row. make_delivery [] \<lparr>o_over = 0, o_deliveries = [ball 4]\<rparr> (ball 4) = Inr row
          \<and> extras_type row = None
          \<and> (runs_batter row, runs_extras row, runs_total row) = (4, 0, 4))"
proof -
  have "\<exists>row. make_delivery [] \<lparr>o_over = 0, o_deliveries = [wide]\<rparr> wide = Inr row"
    by (simp add: wide_def ball_def delivery_defs)
  then obtain row where
    h: "make_delivery [] \<lparr>o_over = 0, o_deliveries = [wide]\<rparr> wide = Inr row" ..
  have "d_extras wide = Some ((''wides'', 1) # [])"
       "d_runs wide = \<lparr>r_batter = 0, r_extras = 1, r_total = 1\<rparr>"
    by (simp_all add: wide_def ball_def)
  then have 1: "\<exists>row. make_delivery [] \<lparr>o_over = 0, o_deliveries = [wide]\<rparr> wide = Inr row
          \<and> extras_type row = Some ''wides''
          \<and> (runs_batter row, runs_extras row, runs_total row) = (0, 1, 1)"
    using extras_type_first_key [OF h] h by auto
  have "\<exists>row. make_delivery [] \<lparr>o_over = 0, o_deliveries = [ball 4]\<rparr> (ball 4) = Inr row"
    by (simp add: ball_def delivery_defs)
  then obtain row' where
    h': "make_delivery [] \<lparr>o_over = 0, o_deliveries = [ball 4]\<rparr> (ball 4) = Inr row'" ..
  have "d_extras (ball 4) = None"
       "d_runs (ball 4) = \<lparr>r_batter = 4, r_extras = 0, r_total = 4\<rparr>"
    by (simp_all add: ball_def)
  then have 2: "\<exists>row. make_delivery [] \<lparr>o_over = 0, o_deliveries = [ball 4]\<rparr> (ball 4) = Inr row
          \<and> extras_type row = None
          \<and> (runs_batter row, runs_extras row, runs_total row) = (4, 0, 4)"
    using extras_type_first_key [OF h'] h' by auto
  from 1 2 show ?thesis ..
qed

subsection \<open>The over values of an inning\<close>










subsection \<open>Exceptions leave the loops and the run\<close>

lemma deliveries_loop_error:
  "d \<in> set ds \<Longrightarrow> make_delivery players od d = Inl e \<Longrightarrow>
     \<exists>e'. deliveries_loop players od ds = Inl e'"
  by (induction ds) (auto split: sum.splits)

lemma overs_loop_error:
  "od \<in> set overs \<Longrightarrow> d \<in> set (o_deliveries od) \<Longrightarrow> make_delivery players od d = Inl e \<Longrightarrow>
     \<exists>e'. overs_loop players overs = Inl e'"
proof (induction overs)
  case Nil
  then show ?case by simp
next
  case (Cons a overs)
  show ?case
  proof (cases "od = a")
    case True
    with Cons.prems deliveries_loop_error [of d "o_deliveries a" players a e]
    show ?thesis by auto
  next
    case False
    with Cons show ?thesis by (auto split: sum.splits)
  qed
qed

lemma innings_loop_error:
  "inn \<in> set inns \<Longrightarrow> overs_loop players (i_overs inn) = Inl e \<Longrightarrow>
     \<exists>e'. innings_loop teams players i inns = Inl e'"
proof (induction inns arbitrary: i)
  case Nil
  then show ?case by simp
next
  case (Cons a inns)
  show ?case
  proof (cases "inn = a")
    case True
    with Cons.prems show ?thesis
      by (auto simp: make_inning_def split: sum.splits)
  next
    case False
    with Cons.prems Cons.IH [of "Suc i"] show ?thesis
      by (auto split: sum.splits)
  qed
qed

lemma process_file_error:
  assumes "\<And>teams players. \<exists>e. innings_loop teams players 0 (doc_innings data) = Inl e"
  shows "\<exists>e. process_file env st (name, Some data) = Inl e"
  using assms unfolding process_file_def Let_def
  by (simp split: sum.splits) (metis sum.distinct(1))

lemma process_file_malformed: "process_file env st (name, None) = Inl JSONDecodeError"
  by (simp add: process_file_def)

lemma process_files_append:
  "process_files env st (xs @ ys) =
     (case process_files env st xs of
        Inl e \<Rightarrow> Inl e
      | Inr st' \<Rightarrow> process_files env st' ys)"
  by (induction xs arbitrary: st) (auto split: sum.splits)

lemma process_files_error:
  "file \<in> set files \<Longrightarrow> (\<And>st. \<exists>e. process_file env st file = Inl e) \<Longrightarrow>
     \<exists>e. process_files env st files = Inl e"
proof (induction files arbitrary: st)
  case Nil
  then show ?case by simp
next
  case (Cons a files)
  show ?case
  proof (cases "process_file env st a")
    case (Inl e)
    then show ?thesis by simp
  next
    case (Inr st')
    have "file \<noteq> a" using Cons.prems(2) [of st] Inr by auto
    with Cons.prems(1) have "file \<in> set files" by auto
    with Cons.IH [of st'] Cons.prems(2) Inr show ?thesis by simp
  qed
qed

lemma process_and_load_data_error:
  assumes "file \<in> set listing" "endswith (fst file) ''.json''"
    and "\<And>st. \<exists>e. process_file env st file = Inl e"
  shows "\<exists>e. process_and_load_data env listing = Inl e"
proof -
  from assms(1,2) have "file \<in> set (filter (\<lambda>f. endswith (fst f) ''.json'') listing)"
    by simp
  from process_files_error [OF this assms(3)]
  obtain e where
    "process_files env init_state (filter (\<lambda>f. endswith (fst f) ''.json'') listing) = Inl e"
    by blast
  then show ?thesis by (simp add: process_and_load_data_def)
qed

lemmas run_defs = process_and_load_data_def process_file_def session_commit_def
  make_match_def make_inning_def next_team_id_def find_team_id_def init_state_def
  endswith_def splitext_def next_rowid_def session_rollback_def Let_def

lemmas doc_defs = env0_def env_one_commit_def doc_of_def innings_of_def mumbai_def chennai_def

text \<open>
  C10. A delivery whose \<^verbatim>\<open>wickets\<close> key holds the empty list makes line 153 raise
  \<^verbatim>\<open>IndexError\<close>; nothing catches it, so a run that reads a document with such a
  delivery ends in an exception. A delivery of an over yields a row exactly when
  neither its wickets list nor its extras dict is present and empty; in particular
  only when the wickets list, if present, is non-empty.
\<close>

theorem empty_wickets_list_aborts_run:
  assumes "d_wickets d = Some []"
  shows "make_delivery players od d = Inl IndexError
         \<and> (d \<in> set (o_deliveries od) \<and> od \<in> set (i_overs inn) \<and>
              inn \<in> set (doc_innings data) \<and> (name, Some data) \<in> set listing \<and>
              endswith name ''.json''
            \<longrightarrow> (\<exists>e. process_and_load_data env listing = Inl e))
         \<and> (\<forall>d' (od' :: over_data). d' \<in> set (o_deliveries od') \<longrightarrow>
               ((\<exists>row. make_delivery players od' d' = Inr row) \<longleftrightarrow>
                  d_wickets d' \<noteq> Some [] \<and> d_extras d' \<noteq> Some []))"
proof (intro conjI impI allI)
  show "make_delivery players od d = Inl IndexError"
    using assms by (rule make_delivery_wickets_empty)
next
  assume a: "d \<in> set (o_deliveries od) \<and> od \<in> set (i_overs inn) \<and>
             inn \<in> set (doc_innings data) \<and> (name, Some data) \<in> set listing \<and>
             endswith name ''.json''"
  have "\<exists>e. innings_loop teams ps 0 (doc_innings data) = Inl e" for teams ps
  proof -
    have "make_delivery ps od d = Inl IndexError"
      using assms by (rule make_delivery_wickets_empty)
    with a obtain e where "overs_loop ps (i_overs inn) = Inl e"
      using overs_loop_error by blast
    with a show ?thesis using innings_loop_error by blast
  qed
  then have "\<exists>e. process_file env st (name, Some data) = Inl e" for st
    by (rule process_file_error)
  with a show "\<exists>e. process_and_load_data env listing = Inl e"
    using process_and_load_data_error [of "(name, Some data)" listing env] by simp
next
  fix d' and od' :: over_data
  assume "d' \<in> set (o_deliveries od')"
  then show "(\<exists>row. make_delivery players od' d' = Inr row) \<longleftrightarrow>
               d_wickets d' \<noteq> Some [] \<and> d_extras d' \<noteq> Some []"
    by (rule make_delivery_total_iff)
qed

theorem empty_wickets_list_aborts_run_witness:
  "d_wickets empty_wickets = Some [] \<and>
   make_delivery [] \<lparr>o_over = 0, o_deliveries = [empty_wickets]\<rparr> empty_wickets
     = Inl IndexError \<and>
   (\<exists>e. process_and_load_data env0
           [(''m1.json'', Some (doc_of [\<lparr>o_over = 0, o_deliveries = [empty_wickets]\<rparr>]))]
         = Inl e)"
proof -
  have w: "d_wickets empty_wickets = Some []"
    by (simp add: empty_wickets_def)
  have m: "empty_wickets \<in> set (o_deliveries \<lparr>o_over = 0, o_deliveries = [empty_wickets]\<rparr>) \<and>
           \<lparr>o_over = 0, o_deliveries = [empty_wickets]\<rparr>
             \<in> set (i_overs (innings_of [\<lparr>o_over = 0, o_deliveries = [empty_wickets]\<rparr>])) \<and>
           innings_of [\<lparr>o_over = 0, o_deliveries = [empty_wickets]\<rparr>]
             \<in> set (doc_innings (doc_of [\<lparr>o_over = 0, o_deliveries = [empty_wickets]\<rparr>])) \<and>
           (''m1.json'', Some (doc_of [\<lparr>o_over = 0, o_deliveries = [empty_wickets]\<rparr>]))
             \<in> set [(''m1.json'', Some (doc_of [\<lparr>o_over = 0, o_deliveries = [empty_wickets]\<rparr>]))] \<and>
           endswith ''m1.json'' ''.json''"
    by (simp add: innings_of_def doc_of_def endswith_def)
  from empty_wickets_list_aborts_run [OF w,
      of "[]" "\<lparr>o_over = 0, o_deliveries = [empty_wickets]\<rparr>"
         "innings_of [\<lparr>o_over = 0, o_deliveries = [empty_wickets]\<rparr>]"
         "doc_of [\<lparr>o_over = 0, o_deliveries = [empty_wickets]\<rparr>]" "''m1.json''"
         "[(''m1.json'', Some (doc_of [\<lparr>o_over = 0, o_deliveries = [empty_wickets]\<rparr>]))]" env0]
    w m
  show ?thesis by blast
qed

text \<open>
  C4 as stated fails: a file that is not valid JSON ends the run with the
  exception of \<^verbatim>\<open>json.load\<close>; the document after it is not read.
\<close>

theorem malformed_file_counterexample:
  "process_and_load_data env0
     [(''bad.json'', None), (''m1.json'', Some (doc_of [four_dot]))]
   = Inl JSONDecodeError"
  by (simp add: process_and_load_data_def process_file_def endswith_def)

text \<open>
  C4, amended. A source file that is not valid structured data makes the run raise:
  the exception leaves \<^verbatim>\<open>process_and_load_data\<close>, which reads no later file and
  does not attempt the final commit. When the files before it load, the exception is
  the parse error of that file.
\<close>

theorem malformed_file_aborts_run:
  assumes "endswith name ''.json''"
  shows "(\<exists>e. process_and_load_data env (before @ (name, None) # after) = Inl e)
         \<and> (\<forall>st. process_files env init_state
                    (filter (\<lambda>f. endswith (fst f) ''.json'') before) = Inr st
               \<longrightarrow> process_and_load_data env (before @ (name, None) # after)
                     = Inl JSONDecodeError)"
proof -
  have "process_files env init_state
          (filter (\<lambda>f. endswith (fst f) ''.json'') (before @ (name, None) # after)) =
        (case process_files env init_state (filter (\<lambda>f. endswith (fst f) ''.json'') before) of
           Inl e \<Rightarrow> Inl e
         | Inr st' \<Rightarrow> Inl JSONDecodeError)"
    using assms
    by (simp add: process_files_append process_file_malformed split: sum.splits)
  then show ?thesis
    by (auto simp: process_and_load_data_def split: sum.splits)
qed

theorem malformed_file_aborts_run_witness:
  "endswith ''bad.json'' ''.json'' \<and>
   process_files env0 init_state
     (filter (\<lambda>f. endswith (fst f) ''.json'') [(''notes.txt'', None)]) = Inr init_state \<and>
   process_and_load_data env0
     ([(''notes.txt'', None)] @ (''bad.json'', None) # [(''m1.json'', Some (doc_of [four_dot]))])
   = Inl JSONDecodeError"
proof -
  have a: "endswith ''bad.json'' ''.json''"
    by (simp add: endswith_def)
  have b: "process_files env0 init_state
     (filter (\<lambda>f. endswith (fst f) ''.json'') [(''notes.txt'', None)]) = Inr init_state"
    by (simp add: endswith_def)
  from malformed_file_aborts_run [OF a, of env0 "[(''notes.txt'', None)]"
         "[(''m1.json'', Some (doc_of [four_dot]))]"] a b
  show ?thesis by blast
qed

text \<open>
  C7 as stated fails in one part: the failure of the final commit is not surfaced
  to the caller. With one document, whose commit of teams and players succeeds, and a
  final commit that fails, \<^verbatim>\<open>process_and_load_data\<close> returns normally; the failure
  is only printed. The two team rows stay in the store and the match is discarded.
\<close>

theorem final_commit_failure_counterexample:
  "process_and_load_data env_one_commit [(''m1.json'', Some (doc_of [four_dot]))]
   = Inr \<lparr>player_cache = [],
          team_cache = [(''Mumbai Indians'', mumbai), (''Chennai Super Kings'', chennai)],
          session_new = [],
          db_players = [], db_teams = [mumbai, chennai], db_matches = [],
          n_commits = 1,
          stdout = [Processing ''m1.json'', Final_commit_error SQLAlchemyError]\<rparr>"
  by (simp add: run_defs doc_defs four_dot_def ball_def delivery_defs)

text \<open>
  C7, amended. When the final commit of a run fails, the uncommitted writes of the
  run are rolled back, the failure is printed and \<^verbatim>\<open>process_and_load_data\<close> returns
  normally (no exception reaches the caller); the rows committed by the earlier
  successful per-document commits remain in the store.
\<close>

theorem final_commit_failure_rolls_back:
  assumes "process_files env init_state
             (filter (\<lambda>f. endswith (fst f) ''.json'') listing) = Inr st"
    and "\<not> commit_ok env (n_commits st)"
  shows "\<exists>st'. process_and_load_data env listing = Inr st'
           \<and> session_new st' = []
           \<and> db_teams st' = db_teams st \<and> db_players st' = db_players st
           \<and> db_matches st' = db_matches st
           \<and> stdout st' = stdout st @ [Final_commit_error SQLAlchemyError]"
  using assms
  by (simp add: process_and_load_data_def session_commit_def session_rollback_def)

theorem final_commit_failure_rolls_back_witness:
  "\<exists>st st'.
     process_files env_one_commit init_state
       (filter (\<lambda>f. endswith (fst f) ''.json'') [(''m1.json'', Some (doc_of [four_dot]))])
       = Inr st
     \<and> \<not> commit_ok env_one_commit (n_commits st)
     \<and> length (session_new st) = 1
     \<and> process_and_load_data env_one_commit [(''m1.json'', Some (doc_of [four_dot]))] = Inr st'
     \<and> session_new st' = [] \<and> db_matches st' = [] \<and> db_teams st' = [mumbai, chennai]"
proof -
  have "\<exists>st. process_files env_one_commit init_state
       (filter (\<lambda>f. endswith (fst f) ''.json'') [(''m1.json'', Some (doc_of [four_dot]))])
       = Inr st
     \<and> \<not> commit_ok env_one_commit (n_commits st)
     \<and> length (session_new st) = 1
     \<and> db_matches st = [] \<and> db_teams st = [mumbai, chennai]"
    by (simp add: run_defs doc_defs four_dot_def ball_def delivery_defs)
  then obtain st where
    a: "process_files env_one_commit init_state
       (filter (\<lambda>f. endswith (fst f) ''.json'') [(''m1.json'', Some (doc_of [four_dot]))])
       = Inr st"
    and b: "\<not> commit_ok env_one_commit (n_commits st)"
    and c: "length (session_new st) = 1" "db_matches st = []" "db_teams st = [mumbai, chennai]"
    by (elim exE conjE)
  from final_commit_failure_rolls_back [OF a b] a b c show ?thesis
    by metis
qed

subsection \<open>The match row and its references\<close>

lemma make_match_Inr:
  assumes "make_match td teams players file_name info = Inr m"
  obtains pom where
    "(case info_player_of_match info of
        None \<Rightarrow> Inr None
      | Some names \<Rightarrow> (case item0 names of Inl e \<Rightarrow> Inl e | Inr n \<Rightarrow> Inr (Some n)))
     = Inr pom"
    "next_team_id teams (item0 (info_teams info)) = Inr (team1_id m)"
    "next_team_id teams (item1 (info_teams info)) = Inr (team2_id m)"
    "next_team_id teams (Inr (t_winner (info_toss info))) = Inr (toss_winner_id m)"
    "winner_id m =
       find_team_id teams
         (oc_winner (case info_outcome info of
                       None \<Rightarrow> \<lparr>oc_winner = None, oc_by = None\<rparr> | Some oc \<Rightarrow> oc))"
    "player_of_match_id m = find_player_id players pom"
    "outcome_result m =
       (case oc_by (case info_outcome info of
                      None \<Rightarrow> \<lparr>oc_winner = None, oc_by = None\<rparr> | Some oc \<Rightarrow> oc) of
          None \<Rightarrow> None | Some [] \<Rightarrow> None | Some (kv # _) \<Rightarrow> Some (fst kv))"
    "outcome_margin m =
       (case oc_by (case info_outcome info of
                      None \<Rightarrow> \<lparr>oc_winner = None, oc_by = None\<rparr> | Some oc \<Rightarrow> oc) of
          None \<Rightarrow> None | Some [] \<Rightarrow> None | Some (kv # _) \<Rightarrow> Some (snd kv))"
    "innings m = []"
  using assms unfolding make_match_def Let_def
  by (auto split: sum.splits)

text \<open>
  C8. For every match row built, \<open>outcome_result\<close> and \<open>outcome_margin\<close> are the
  key and the value of the first pair of the outcome's \<^verbatim>\<open>by\<close> structure when it is
  present (and has a pair), and both are null when there is no outcome or no
  \<^verbatim>\<open>by\<close> structure; a \<^verbatim>\<open>by\<close> structure without a pair also gives null for both.
\<close>

theorem outcome_first_pair:
  assumes "make_match td teams players file_name info = Inr m"
  shows "(outcome_result m, outcome_margin m) =
           (case info_outcome info of
              None \<Rightarrow> (None, None)
            | Some outcome \<Rightarrow>
                (case oc_by outcome of
                   None \<Rightarrow> (None, None)
                 | Some [] \<Rightarrow> (None, None)
                 | Some ((k, v) # rest) \<Rightarrow> (Some k, Some v)))"
proof -
  from assms have
    "outcome_result m =
       (case oc_by (case info_outcome info of
                      None \<Rightarrow> \<lparr>oc_winner = None, oc_by = None\<rparr> | Some oc \<Rightarrow> oc) of
          None \<Rightarrow> None | Some [] \<Rightarrow> None | Some (kv # _) \<Rightarrow> Some (fst kv))"
    "outcome_margin m =
       (case oc_by (case info_outcome info of
                      None \<Rightarrow> \<lparr>oc_winner = None, oc_by = None\<rparr> | Some oc \<Rightarrow> oc) of
          None \<Rightarrow> None | Some [] \<Rightarrow> None | Some (kv # _) \<Rightarrow> Some (snd kv))"
    by (auto elim: make_match_Inr)
  then show ?thesis
    by (auto split: option.splits list.splits)
qed

theorem outcome_first_pair_witness:
  "\<exists>m. make_match (to_datetime env0) [mumbai, chennai] [] ''m1.json''
          (doc_info (doc_with_registry [four_dot])) = Inr m
       \<and> (outcome_result m, outcome_margin m) = (Some ''runs'', Some 5)"
proof -
  have "\<exists>m. make_match (to_datetime env0) [mumbai, chennai] [] ''m1.json''
          (doc_info (doc_with_registry [four_dot])) = Inr m"
    by (simp add: run_defs doc_defs doc_with_registry_def find_player_id_def)
  then obtain m where
    h: "make_match (to_datetime env0) [mumbai, chennai] [] ''m1.json''
          (doc_info (doc_with_registry [four_dot])) = Inr m" ..
  have "info_outcome (doc_info (doc_with_registry [four_dot])) =
          Some \<lparr>oc_winner = Some ''Mumbai Indians'', oc_by = Some [(''runs'', 5)]\<rparr>"
    by (simp add: doc_with_registry_def doc_of_def)
  with outcome_first_pair [OF h] h show ?thesis
    by auto
qed

lemma flush_teams_entry_id:
  "(k, t) \<in> set (fst (flush_teams n tc)) \<Longrightarrow> team_id t \<noteq> None"
  by (induction n tc rule: flush_teams.induct)
     (auto simp: Let_def split: option.splits)











lemma session_commit_Inr:
  assumes "session_commit env st = Inr st'"
  shows "team_cache st' = fst (flush_teams (next_rowid (db_teams st)) (team_cache st))"
    and "db_teams st' = db_teams st @ snd (flush_teams (next_rowid (db_teams st)) (team_cache st))"
    and "player_cache st' = player_cache st"
    and "session_new st' = []"
    and "db_matches st' = db_matches st @ session_new st"
    and "n_commits st' = Suc (n_commits st)"
    and "stdout st' = stdout st"
  using assms
  by (auto simp: session_commit_def Let_def split: if_splits)

lemma process_file_Inr:
  assumes "process_file env st file = Inr st'"
  obtains data st3 st4 new_match inns where
    "snd file = Some data"
    "player_cache st3 =
       (case info_registry (doc_info data) of
          None \<Rightarrow> player_cache st
        | Some registry \<Rightarrow>
            (case reg_people registry of
               None \<Rightarrow> player_cache st
             | Some people \<Rightarrow> add_people people (player_cache st)))"
    "team_cache st3 = add_teams (info_teams (doc_info data)) (team_cache st)"
    "db_teams st3 = db_teams st" "db_players st3 = db_players st"
    "db_matches st3 = db_matches st" "session_new st3 = session_new st"
    "n_commits st3 = n_commits st"
    "session_commit env st3 = Inr st4"
    "make_match (to_datetime env) (map snd (team_cache st4)) (map snd (player_cache st4))
       (fst file) (doc_info data) = Inr new_match"
    "innings_loop (map snd (team_cache st4)) (map snd (player_cache st4)) 0
       (doc_innings data) = Inr inns"
    "st' = st4\<lparr>session_new := session_new st4 @ [new_match\<lparr>innings := inns\<rparr>]\<rparr>"
proof -
  from assms obtain data where data: "snd file = Some data"
    by (cases "snd file") (auto simp: process_file_def)
  define st1 where "st1 = st\<lparr>stdout := stdout st @ [Processing (fst file)]\<rparr>"
  define st2 where "st2 =
    st1\<lparr>player_cache :=
          (case info_registry (doc_info data) of
             None \<Rightarrow> player_cache st1
           | Some registry \<Rightarrow>
               (case reg_people registry of
                  None \<Rightarrow> player_cache st1
                | Some people \<Rightarrow> add_people people (player_cache st1)))\<rparr>"
  define st3 where "st3 =
    st2\<lparr>team_cache := add_teams (info_teams (doc_info data)) (team_cache st2)\<rparr>"
  from assms data have
    "\<exists>st4 new_match inns.
       session_commit env st3 = Inr st4 \<and>
       make_match (to_datetime env) (map snd (team_cache st4)) (map snd (player_cache st4))
         (fst file) (doc_info data) = Inr new_match \<and>
       innings_loop (map snd (team_cache st4)) (map snd (player_cache st4)) 0
         (doc_innings data) = Inr inns \<and>
       st' = st4\<lparr>session_new := session_new st4 @ [new_match\<lparr>innings := inns\<rparr>]\<rparr>"
    unfolding process_file_def Let_def st3_def st2_def st1_def
    by (auto split: sum.splits)
  then obtain st4 new_match inns where
    c: "session_commit env st3 = Inr st4"
    and m: "make_match (to_datetime env) (map snd (team_cache st4)) (map snd (player_cache st4))
       (fst file) (doc_info data) = Inr new_match"
    and i: "innings_loop (map snd (team_cache st4)) (map snd (player_cache st4)) 0
       (doc_innings data) = Inr inns"
    and s: "st' = st4\<lparr>session_new := session_new st4 @ [new_match\<lparr>innings := inns\<rparr>]\<rparr>"
    by (elim exE conjE)
  show thesis
    by (rule that [OF data _ _ _ _ _ _ _ c m i s])
       (simp_all add: st3_def st2_def st1_def split: option.splits)
qed




subsection \<open>Team resolution\<close>

lemma add_teams_append: "\<exists>extra. add_teams names tc = tc @ extra"
proof (induction names arbitrary: tc)
  case Nil
  then show ?case by simp
next
  case (Cons n names)
  show ?case
  proof (cases "map_of tc n = None")
    case True
    from Cons.IH [of "tc @ [(n, \<lparr>team_id = None, team_name = n\<rparr>)]"] True
    show ?thesis by auto
  next
    case False
    with Cons.IH [of tc] show ?thesis by auto
  qed
qed

lemma add_teams_keys: "fst ` set (add_teams names tc) = fst ` set tc \<union> set names"
proof (induction names arbitrary: tc)
  case Nil
  then show ?case by simp
next
  case (Cons n names)
  show ?case
  proof (cases "map_of tc n = None")
    case True
    with Cons.IH [of "tc @ [(n, \<lparr>team_id = None, team_name = n\<rparr>)]"]
    show ?thesis by auto
  next
    case False
    then have "n \<in> fst ` set tc"
      by (simp add: map_of_eq_None_iff)
    with False Cons.IH [of tc] show ?thesis by auto
  qed
qed

lemma add_teams_noop: "set names \<subseteq> fst ` set tc \<Longrightarrow> add_teams names tc = tc"
proof (induction names arbitrary: tc)
  case Nil
  then show ?case by simp
next
  case (Cons n names)
  then have "map_of tc n \<noteq> None"
    by (simp add: map_of_eq_None_iff)
  with Cons show ?case by auto
qed

lemma add_teams_idem: "add_teams names (add_teams names tc) = add_teams names tc"
  by (rule add_teams_noop) (simp add: add_teams_keys)

lemma flush_teams_keys: "map fst (fst (flush_teams n tc)) = map fst tc"
  by (induction n tc rule: flush_teams.induct) (auto simp: Let_def split: option.splits)

lemma flush_teams_names:
  "list_all (\<lambda>e. team_name (snd e) = fst e) tc \<Longrightarrow>
     list_all (\<lambda>e. team_name (snd e) = fst e) (fst (flush_teams n tc))"
  by (induction n tc rule: flush_teams.induct) (auto simp: Let_def split: option.splits)

lemma flush_teams_rows:
  "map team_name (snd (flush_teams n tc)) =
     map (\<lambda>e. team_name (snd e)) (filter (\<lambda>e. team_id (snd e) = None) tc)"
  by (induction n tc rule: flush_teams.induct) (auto simp: Let_def split: option.splits)

lemma flush_teams_all_ids:
  "filter (\<lambda>e. team_id (snd e) \<noteq> None) (fst (flush_teams n tc)) = fst (flush_teams n tc)"
  using flush_teams_entry_id [of _ _ n tc] by (auto simp: filter_id_conv)

lemma flush_teams_find:
  "find (\<lambda>t. team_name t = name) (map snd tc) = Some t \<Longrightarrow> team_id t = Some tid \<Longrightarrow>
     find (\<lambda>t. team_name t = name) (map snd (fst (flush_teams n tc))) = Some t"
  by (induction n tc rule: flush_teams.induct) (auto simp: Let_def split: option.splits if_splits)

lemma next_team_id_Some:
  "next_team_id teams (Inr name) = Inr (Some tid) \<longleftrightarrow>
     (\<exists>t. find (\<lambda>t. team_name t = name) teams = Some t \<and> team_id t = Some tid)"
  by (cases teams) (auto simp: next_team_id_def split: option.splits)

lemma find_append_Some: "find P xs = Some x \<Longrightarrow> find P (xs @ ys) = Some x"
  by (induction xs) auto

lemma process_file_lookup_stable:
  assumes "process_file env st file = Inr st'"
    and "next_team_id (map snd (team_cache st)) (Inr name) = Inr (Some tid)"
  shows "next_team_id (map snd (team_cache st')) (Inr name) = Inr (Some tid)"
  using assms(1)
proof (rule process_file_Inr)
  fix data st4 new_match inns and st3 :: state
  assume t3: "team_cache st3 = add_teams (info_teams (doc_info data)) (team_cache st)"
    and c: "session_commit env st3 = Inr st4"
    and s: "st' = st4\<lparr>session_new := session_new st4 @ [new_match\<lparr>innings := inns\<rparr>]\<rparr>"
  from assms(2) obtain t where
    f: "find (\<lambda>t. team_name t = name) (map snd (team_cache st)) = Some t"
    and i: "team_id t = Some tid"
    by (auto simp: next_team_id_Some)
  from add_teams_append obtain extra where
    "add_teams (info_teams (doc_info data)) (team_cache st) = team_cache st @ extra"
    by blast
  with t3 f have "find (\<lambda>t. team_name t = name) (map snd (team_cache st3)) = Some t"
    by (simp add: find_append_Some)
  from flush_teams_find [OF this i] session_commit_Inr(1) [OF c]
  have "find (\<lambda>t. team_name t = name) (map snd (team_cache st4)) = Some t"
    by simp
  with i have "next_team_id (map snd (team_cache st4)) (Inr name) = Inr (Some tid)"
    by (auto simp: next_team_id_Some)
  with s show ?thesis by simp
qed

lemma add_teams_distinct: "distinct (map fst tc) \<Longrightarrow> distinct (map fst (add_teams names tc))"
proof (induction names arbitrary: tc)
  case Nil
  then show ?case by simp
next
  case (Cons n names)
  show ?case
  proof (cases "map_of tc n = None")
    case True
    then have "n \<notin> fst ` set tc" by (simp add: map_of_eq_None_iff)
    with Cons.prems have "distinct (map fst (tc @ [(n, \<lparr>team_id = None, team_name = n\<rparr>)]))"
      by simp
    from Cons.IH [OF this] True show ?thesis by simp
  next
    case False
    with Cons.IH [OF Cons.prems] show ?thesis by auto
  qed
qed

lemma add_teams_names:
  "list_all (\<lambda>e. team_name (snd e) = fst e) tc \<Longrightarrow>
     list_all (\<lambda>e. team_name (snd e) = fst e) (add_teams names tc)"
proof (induction names arbitrary: tc)
  case Nil
  then show ?case by simp
next
  case (Cons n names)
  from Cons.prems
  have "list_all (\<lambda>e. team_name (snd e) = fst e) (tc @ [(n, \<lparr>team_id = None, team_name = n\<rparr>)])"
    by simp
  from Cons.IH [OF this] Cons.IH [OF Cons.prems] show ?case by auto
qed

lemma add_teams_with_id:
  "filter (\<lambda>e. team_id (snd e) \<noteq> None) (add_teams names tc) =
     filter (\<lambda>e. team_id (snd e) \<noteq> None) tc"
proof (induction names arbitrary: tc)
  case Nil
  then show ?case by simp
next
  case (Cons n names)
  from Cons.IH [of "tc @ [(n, \<lparr>team_id = None, team_name = n\<rparr>)]"] Cons.IH [of tc]
  show ?case by auto
qed

lemma keys_filter_disjoint:
  "distinct (map fst tc) \<Longrightarrow>
     fst ` set (filter P tc) \<inter> fst ` set (filter (\<lambda>e. \<not> P e) tc) = {}"
  by (induction tc) (auto simp: image_iff)

lemma keys_filter_union:
  "fst ` set (filter P tc) \<union> fst ` set (filter (\<lambda>e. \<not> P e) tc) = fst ` set tc"
  by (induction tc) auto

lemma team_store_inv_init: "team_store_inv init_state"
  by (simp add: team_store_inv_def init_state_def)

lemma session_commit_inv:
  assumes "team_store_inv st" and "session_commit env st = Inr st'"
  shows "team_store_inv st'"
    and "set (map team_name (db_teams st')) = fst ` set (team_cache st)"
proof -
  let ?tc = "team_cache st"
  let ?n = "next_rowid (db_teams st)"
  let ?with = "filter (\<lambda>e. team_id (snd e) \<noteq> None) ?tc"
  let ?without = "filter (\<lambda>e. team_id (snd e) = None) ?tc"
  from assms(1) have d: "distinct (map fst ?tc)"
    and kn: "list_all (\<lambda>e. team_name (snd e) = fst e) ?tc"
    and dr: "distinct (map team_name (db_teams st))"
    and rows: "set (map team_name (db_teams st)) = set (map fst ?with)"
    by (simp_all add: team_store_inv_def)
  from session_commit_Inr [OF assms(2)]
  have tc': "team_cache st' = fst (flush_teams ?n ?tc)"
    and db': "db_teams st' = db_teams st @ snd (flush_teams ?n ?tc)"
    by simp_all
  from kn have "map (\<lambda>e. team_name (snd e)) ?without = map fst ?without"
    by (auto simp: list_all_iff)
  then have new: "map team_name (snd (flush_teams ?n ?tc)) = map fst ?without"
    by (simp add: flush_teams_rows)
  from d have dn: "distinct (map fst ?without)"
    by (rule distinct_map_filter)
  from keys_filter_disjoint [OF d, of "\<lambda>e. team_id (snd e) = None"] rows
  have disj: "set (map team_name (db_teams st)) \<inter> set (map fst ?without) = {}"
    by (simp add: Int_commute)
  from keys_filter_union [of "\<lambda>e. team_id (snd e) = None" ?tc]
  have un: "set (map fst ?with) \<union> set (map fst ?without) = fst ` set ?tc"
    by (simp add: Un_commute)
  from db' new dr dn disj have 3: "distinct (map team_name (db_teams st'))"
    by simp
  from db' new rows un show 4: "set (map team_name (db_teams st')) = fst ` set ?tc"
    by simp
  from tc' have k': "map fst (team_cache st') = map fst ?tc"
    by (simp add: flush_teams_keys)
  have all: "filter (\<lambda>e. team_id (snd e) \<noteq> None) (team_cache st') = team_cache st'"
    unfolding tc' by (rule flush_teams_all_ids)
  from k' have "fst ` set (team_cache st') = fst ` set ?tc"
    by (metis set_map)
  with 4 all have 5: "set (map team_name (db_teams st')) =
      set (map fst (filter (\<lambda>e. team_id (snd e) \<noteq> None) (team_cache st')))"
    by simp
  from d k' kn tc' 3 5 show "team_store_inv st'"
    by (simp add: team_store_inv_def flush_teams_names)
qed

lemma process_file_inv:
  assumes "process_file env st file = Inr st'" and "team_store_inv st"
  shows "team_store_inv st'"
    and "set (map team_name (db_teams st)) \<subseteq> set (map team_name (db_teams st'))"
    and "\<And>data. snd file = Some data \<Longrightarrow>
           set (info_teams (doc_info data)) \<subseteq> set (map team_name (db_teams st'))"
proof -
  have "team_store_inv st' \<and>
        set (map team_name (db_teams st)) \<subseteq> set (map team_name (db_teams st')) \<and>
        (\<forall>data. snd file = Some data \<longrightarrow>
           set (info_teams (doc_info data)) \<subseteq> set (map team_name (db_teams st')))"
    using assms(1)
  proof (rule process_file_Inr)
    fix data st4 new_match inns and st3 :: state
    assume f: "snd file = Some data"
      and t3: "team_cache st3 = add_teams (info_teams (doc_info data)) (team_cache st)"
      and d3: "db_teams st3 = db_teams st"
      and c: "session_commit env st3 = Inr st4"
      and s: "st' = st4\<lparr>session_new := session_new st4 @ [new_match\<lparr>innings := inns\<rparr>]\<rparr>"
    have i3: "team_store_inv st3"
      unfolding team_store_inv_def t3 d3 add_teams_with_id
      using assms(2) [unfolded team_store_inv_def]
      by (simp add: add_teams_distinct add_teams_names)
    from session_commit_inv [OF i3 c]
    have i4: "team_store_inv st4"
      and r4: "set (map team_name (db_teams st4)) = fst ` set (team_cache st3)"
      by simp_all
    from r4 t3 have r: "set (map team_name (db_teams st4)) =
        fst ` set (team_cache st) \<union> set (info_teams (doc_info data))"
      by (simp add: add_teams_keys)
    from assms(2) have "set (map team_name (db_teams st)) \<subseteq> fst ` set (team_cache st)"
      by (auto simp: team_store_inv_def)
    with r have m: "set (map team_name (db_teams st)) \<subseteq> set (map team_name (db_teams st4))"
      by blast
    from i4 s have "team_store_inv st'"
      by (simp add: team_store_inv_def)
    with m r s f show ?thesis by auto
  qed
  then show "team_store_inv st'"
    and "set (map team_name (db_teams st)) \<subseteq> set (map team_name (db_teams st'))"
    and "\<And>data. snd file = Some data \<Longrightarrow>
           set (info_teams (doc_info data)) \<subseteq> set (map team_name (db_teams st'))"
    by blast+
qed

lemma process_files_inv:
  assumes "process_files env st files = Inr st'" and "team_store_inv st"
  shows "team_store_inv st' \<and>
         set (map team_name (db_teams st)) \<subseteq> set (map team_name (db_teams st')) \<and>
         (\<forall>file data. file \<in> set files \<and> snd file = Some data \<longrightarrow>
            set (info_teams (doc_info data)) \<subseteq> set (map team_name (db_teams st')))"
  using assms
proof (induction files arbitrary: st)
  case Nil
  then show ?case by simp
next
  case (Cons a files)
  from Cons.prems(1) obtain st1 where
    a: "process_file env st a = Inr st1" and r: "process_files env st1 files = Inr st'"
    by (auto split: sum.splits)
  note p = process_file_inv [OF a Cons.prems(2)]
  from Cons.IH [OF r p(1)] p(2,3) show ?case
    by (auto 4 3)
qed

lemma process_files_lookup_stable:
  assumes "process_files env st files = Inr st'"
    and "next_team_id (map snd (team_cache st)) (Inr name) = Inr (Some tid)"
  shows "next_team_id (map snd (team_cache st')) (Inr name) = Inr (Some tid)"
  using assms
proof (induction files arbitrary: st)
  case Nil
  then show ?case by simp
next
  case (Cons a files)
  from Cons.prems(1) obtain st1 where
    a: "process_file env st a = Inr st1" and r: "process_files env st1 files = Inr st'"
    by (auto split: sum.splits)
  from Cons.IH [OF r process_file_lookup_stable [OF a Cons.prems(2)]] show ?case .
qed

lemma one_row_per_name:
  "distinct (map f xs) \<Longrightarrow> n \<in> set (map f xs) \<Longrightarrow> length (filter (\<lambda>t. f t = n) xs) = 1"
proof (induction xs)
  case Nil
  then show ?case by simp
next
  case (Cons x xs)
  show ?case
  proof (cases "f x = n")
    case True
    from Cons.prems(1) have "f x \<notin> f ` set xs" by simp
    then have "\<forall>t \<in> set xs. f t \<noteq> f x" by (metis imageI)
    with True have "filter (\<lambda>t. f t = n) xs = []"
      by (simp add: filter_empty_conv)
    with True show ?thesis by simp
  next
    case False
    with Cons show ?thesis by auto
  qed
qed

text \<open>
  C5. The get-or-create step of lines 111 to 113 is idempotent. Within one run, once
  the lookup of a team name yields an id, every later lookup of that name yields the
  same id, whatever documents are processed in between. After the run the teams
  table has exactly one row for every team name that a document of the run
  references, and no two rows with the same name.
\<close>

theorem team_resolution_idempotent:
  assumes "process_files env init_state (files1 @ files2) = Inr st"
  shows "\<exists>st1. process_files env init_state files1 = Inr st1
           \<and> (\<forall>name tid.
                 next_team_id (map snd (team_cache st1)) (Inr name) = Inr (Some tid) \<longrightarrow>
                 next_team_id (map snd (team_cache st)) (Inr name) = Inr (Some tid))
           \<and> (\<forall>file data name.
                 file \<in> set (files1 @ files2) \<and> snd file = Some data \<and>
                 name \<in> set (info_teams (doc_info data)) \<longrightarrow>
                 length (filter (\<lambda>t. team_name t = name) (db_teams st)) = 1)
           \<and> distinct (map team_name (db_teams st))
           \<and> add_teams names (add_teams names tc) = add_teams names tc"
proof -
  from assms obtain st1 where
    a: "process_files env init_state files1 = Inr st1"
    and b: "process_files env st1 files2 = Inr st"
    by (auto simp: process_files_append split: sum.splits)
  from process_files_inv [OF assms team_store_inv_init]
  have inv: "team_store_inv st"
    and refs: "\<And>file data. file \<in> set (files1 @ files2) \<Longrightarrow> snd file = Some data \<Longrightarrow>
                 set (info_teams (doc_info data)) \<subseteq> set (map team_name (db_teams st))"
    by blast+
  from inv have d: "distinct (map team_name (db_teams st))"
    by (simp add: team_store_inv_def)
  have one: "length (filter (\<lambda>t. team_name t = name) (db_teams st)) = 1"
    if "fl \<in> set (files1 @ files2)" "snd fl = Some data"
       "name \<in> set (info_teams (doc_info data))" for fl data name
    using refs [OF that(1,2)] that(3) by (intro one_row_per_name [OF d]) blast
  from a process_files_lookup_stable [OF b] one d add_teams_idem show ?thesis
    by blast
qed

theorem team_resolution_idempotent_witness:
  "\<exists>st st1.
     process_files env0 init_state
       ([(''m1.json'', Some (doc_of [four_dot]))] @ [(''m2.json'', Some (doc_of [next_over]))])
       = Inr st
     \<and> process_files env0 init_state [(''m1.json'', Some (doc_of [four_dot]))] = Inr st1
     \<and> next_team_id (map snd (team_cache st1)) (Inr ''Mumbai Indians'') = Inr (Some 1)
     \<and> next_team_id (map snd (team_cache st)) (Inr ''Mumbai Indians'') = Inr (Some 1)
     \<and> db_teams st = [mumbai, chennai]
     \<and> length (filter (\<lambda>t. team_name t = ''Mumbai Indians'') (db_teams st)) = 1"
proof -
  have "\<exists>st. process_files env0 init_state
       ([(''m1.json'', Some (doc_of [four_dot]))] @ [(''m2.json'', Some (doc_of [next_over]))])
       = Inr st \<and> db_teams st = [mumbai, chennai]"
    by (simp add: run_defs doc_defs four_dot_def next_over_def ball_def delivery_defs)
  then obtain st where
    h: "process_files env0 init_state
       ([(''m1.json'', Some (doc_of [four_dot]))] @ [(''m2.json'', Some (doc_of [next_over]))])
       = Inr st"
    and t: "db_teams st = [mumbai, chennai]"
    by (elim exE conjE)
  from team_resolution_idempotent [OF h] obtain st1 where
    a: "process_files env0 init_state [(''m1.json'', Some (doc_of [four_dot]))] = Inr st1"
    and stable: "\<And>name tid.
          next_team_id (map snd (team_cache st1)) (Inr name) = Inr (Some tid) \<Longrightarrow>
          next_team_id (map snd (team_cache st)) (Inr name) = Inr (Some tid)"
    and one: "\<And>file data name.
          file \<in> set ([(''m1.json'', Some (doc_of [four_dot]))] @
                       [(''m2.json'', Some (doc_of [next_over]))]) \<Longrightarrow>
          snd file = Some data \<Longrightarrow> name \<in> set (info_teams (doc_info data)) \<Longrightarrow>
          length (filter (\<lambda>t. team_name t = name) (db_teams st)) = 1"
    by blast
  from a have l1: "next_team_id (map snd (team_cache st1)) (Inr ''Mumbai Indians'') = Inr (Some 1)"
    by (auto simp: run_defs doc_defs four_dot_def ball_def delivery_defs)
  have l: "next_team_id (map snd (team_cache st)) (Inr ''Mumbai Indians'') = Inr (Some 1)"
    by (rule stable [OF l1])
  have r: "length (filter (\<lambda>t. team_name t = ''Mumbai Indians'') (db_teams st)) = 1"
    by (rule one [of "(''m2.json'', Some (doc_of [next_over]))" "doc_of [next_over]"])
       (simp_all add: doc_of_def)
  show ?thesis
    using h a l1 l t r by - (rule exI [of _ st], rule exI [of _ st1], simp)
qed

end
